theory Spec2Isabelle
  imports Complex_Main "HOL-Library.Sublist" "HOL-Library.Stream"
begin

section \<open>Values of the Python program\<close>

text \<open>
  A Python \<open>str\<close> is a sequence of Unicode code points, so it is modelled as a list of
  naturals: \<open>str.strip\<close> looks at code points beyond ASCII and the prompt of
  \<open>get_farming_tips\<close> holds three emoji. \<open>u\<close> reads an ASCII literal as such a string.
\<close>

type_synonym pystr = "nat list"

definition u :: "string \<Rightarrow> pystr" where
  "u s = map of_char s"

text \<open>
  A Python \<open>float\<close> read from JSON: a finite value (every finite double is a rational; the
  sign of zero is not kept), an infinity with its sign, or NaN. Only \<open>bool(x)\<close> is needed
  of it.
\<close>

datatype pyfloat = FloatFinite rat | FloatInf bool | FloatNaN

text \<open>
  What \<open>request.get_json()\<close> can return and what \<open>jsonify\<close> is given: \<open>None\<close>, \<open>bool\<close>,
  \<open>int\<close>, \<open>float\<close>, \<open>str\<close>, \<open>list\<close> and \<open>dict\<close> (keys with their values, in order).
\<close>

datatype json =
    JNull
  | JBool bool
  | JInt int
  | JFloat pyfloat
  | JStr pystr
  | JList "json list"
  | JObj "(pystr \<times> json) list"

text \<open>
  An instance of \<open>Exception\<close>: the name of its class and \<open>str(e)\<close>. This is what
  \<open>except Exception\<close> catches and what a library call raises when it fails; the
  interpreter's \<open>KeyboardInterrupt\<close> and \<open>SystemExit\<close>, which are not instances of
  \<open>Exception\<close>, are not values of this type.
\<close>

datatype py_exception = Raised pystr pystr

fun exc_text :: "py_exception \<Rightarrow> pystr" where
  "exc_text (Raised cls msg) = msg"

text \<open>\<open>bool(v)\<close>, the test behind \<open>if not v\<close>.\<close>

fun truthy :: "json \<Rightarrow> bool" where
  "truthy JNull = False"
| "truthy (JBool b) = b"
| "truthy (JInt n) = (n \<noteq> 0)"
| "truthy (JFloat (FloatFinite q)) = (q \<noteq> 0)"
| "truthy (JFloat (FloatInf s)) = True"
| "truthy (JFloat FloatNaN) = True"
| "truthy (JStr s) = (s \<noteq> [])"
| "truthy (JList xs) = (xs \<noteq> [])"
| "truthy (JObj kvs) = (kvs \<noteq> [])"

fun type_name :: "json \<Rightarrow> pystr" where
  "type_name JNull = u ''NoneType''"
| "type_name (JBool b) = u ''bool''"
| "type_name (JInt n) = u ''int''"
| "type_name (JFloat f) = u ''float''"
| "type_name (JStr s) = u ''str''"
| "type_name (JList xs) = u ''list''"
| "type_name (JObj kvs) = u ''dict''"

text \<open>
  \<open>data.get(key)\<close>: on a \<open>dict\<close> the value, or \<open>None\<close> when the key is absent; every other
  JSON value has no attribute \<open>get\<close>.
\<close>

fun py_get :: "json \<Rightarrow> pystr \<Rightarrow> py_exception + json" where
  "py_get (JObj kvs) key = Inr (case map_of kvs key of None \<Rightarrow> JNull | Some v \<Rightarrow> v)"
| "py_get v key =
     Inl (Raised (u ''AttributeError'')
            (u [CHR 0x27] @ type_name v @ u [CHR 0x27] @ u '' object has no attribute ''
               @ u [CHR 0x27] @ u ''get'' @ u [CHR 0x27]))"

text \<open>
  A replacement field \<open>{crop_name}\<close> of an f-string: a \<open>str\<close> is inserted as it is, any
  other value through the interpreter's \<open>str()\<close>, which is the parameter \<open>py_str\<close>.
\<close>

definition format_field :: "(json \<Rightarrow> pystr) \<Rightarrow> json \<Rightarrow> pystr" where
  "format_field py_str v = (case v of JStr s \<Rightarrow> s | _ \<Rightarrow> py_str v)"

section \<open>String methods\<close>

text \<open>
  \<open>s.replace(old, new)\<close>: the occurrences of \<open>old\<close> are found from the left without
  overlap and each is replaced by \<open>new\<close>; with an empty \<open>old\<close>, \<open>new\<close> is inserted before
  every character and at the end.
\<close>

function replace_from :: "'a list \<Rightarrow> 'a list \<Rightarrow> 'a list \<Rightarrow> 'a list" where
  "replace_from old new [] = []"
| "replace_from old new (c # cs) =
     (if old \<noteq> [] \<and> prefix old (c # cs)
      then new @ replace_from old new (drop (length old) (c # cs))
      else c # replace_from old new cs)"
  by pat_completeness auto
termination
  by (relation "measure (\<lambda>(old, new, s). length s)") auto

definition replace :: "'a list \<Rightarrow> 'a list \<Rightarrow> 'a list \<Rightarrow> 'a list" where
  "replace s old new =
     (if old = [] then new @ concat (map (\<lambda>c. c # new) s) else replace_from old new s)"

text \<open>
  \<open>str.isspace\<close> on one code point, which is the test of \<open>str.strip()\<close> without argument.
\<close>

definition isspace :: "nat \<Rightarrow> bool" where
  "isspace c \<longleftrightarrow>
     (9 \<le> c \<and> c \<le> 13) \<or> (28 \<le> c \<and> c \<le> 32) \<or> c = 133 \<or> c = 160 \<or> c = 5760
     \<or> (8192 \<le> c \<and> c \<le> 8202) \<or> c = 8232 \<or> c = 8233 \<or> c = 8239 \<or> c = 8287 \<or> c = 12288"

definition strip :: "pystr \<Rightarrow> pystr" where
  "strip s = rev (dropWhile isspace (rev (dropWhile isspace s)))"

section \<open>The random module\<close>

text \<open>
  The generator is the stream of its future raw draws. \<open>randbelow n\<close> is the library's
  \<open>_randbelow(n)\<close>, whose contract is a value below \<open>n\<close>; \<open>random.choice\<close> and
  \<open>random.randint\<close> are built on it as in the standard library, with their exceptions.
\<close>

type_synonym rng = "nat stream"

definition randbelow :: "nat \<Rightarrow> rng \<Rightarrow> nat \<times> rng" where
  "randbelow n g = (shd g mod n, stl g)"

definition choice :: "'a list \<Rightarrow> rng \<Rightarrow> py_exception + ('a \<times> rng)" where
  "choice seq g =
     (if seq = [] then Inl (Raised (u ''IndexError'') (u ''Cannot choose from an empty sequence''))
      else (case randbelow (length seq) g of (k, g') \<Rightarrow> Inr (seq ! k, g')))"

definition randint :: "int \<Rightarrow> int \<Rightarrow> rng \<Rightarrow> py_exception + (int \<times> rng)" where
  "randint a b g =
     (if b < a then Inl (Raised (u ''ValueError'') (u ''empty range for randrange()''))
      else (case randbelow (nat (b - a + 1)) g of (k, g') \<Rightarrow> Inr (a + int k, g')))"

section \<open>Responses\<close>

record http_response =
  status :: nat
  body :: json

text \<open>\<open>jsonify(d)\<close> alone is a response with status 200; \<open>jsonify(d), n\<close> has status \<open>n\<close>.\<close>

definition jsonify :: "(pystr \<times> json) list \<Rightarrow> nat \<Rightarrow> http_response" where
  "jsonify d n = \<lparr>status = n, body = JObj d\<rparr>"

section \<open>The endpoint /analyze-crop\<close>

definition possible_crops :: "pystr list" where
  "possible_crops = [u ''Wheat'', u ''Rice'', u ''Sugarcane'', u ''Cotton'', u ''Mustard'']"

text \<open>
  The handler reads nothing of the request \<open>req\<close>. It returns its response, or the exception
  that leaves it, and the generator after its two draws.
\<close>

definition analyze_crop :: "'r \<Rightarrow> rng \<Rightarrow> (py_exception + http_response) \<times> rng" where
  "analyze_crop req g =
     (case choice possible_crops g of
        Inl e \<Rightarrow> (Inl e, g)
      | Inr (detected_crop, g1) \<Rightarrow>
          (case randint 85 98 g1 of
             Inl e \<Rightarrow> (Inl e, g1)
           | Inr (confidence_score, g2) \<Rightarrow>
               (Inr (jsonify [(u ''crop'', JStr detected_crop),
                              (u ''confidence'', JInt confidence_score)] 200), g2)))"

section \<open>The endpoint /get-farming-tips\<close>

text \<open>
  The global \<open>model\<close> is \<open>None\<close> when the configuration at start failed, and otherwise an
  object whose \<open>generate_content(prompt)\<close> raises or returns a response; reading \<open>.text\<close>
  of that response raises or gives a \<open>str\<close>.
\<close>

datatype gen_response = GenResponse (response_text: "py_exception + pystr")

type_synonym client = "pystr \<Rightarrow> py_exception + gen_response"

text \<open>The f-string of the handler, line by line.\<close>

definition prompt :: "pystr \<Rightarrow> pystr" where
  \<open>prompt crop_name =
     u ''\<newline>'' @
     u ''    Act as an expert agronomist specializing in smallholder farms in Northern India.\<newline>'' @
     u ''    Provide practical, concise farming tips for the crop: '' @ crop_name @ u ''.\<newline>'' @
     u ''    The audience is a tech-savvy individual at a hackathon, so the tips should be clear and actionable.\<newline>'' @
     u ''    \<newline>'' @
     u ''    IMPORTANT: Format the entire response as an HTML unordered list (`<ul>`). \<newline>'' @
     u ''    Each list item (`<li>`) should contain one tip.\<newline>'' @
     u ''    Each tip should start with a relevant emoji.\<newline>'' @
     u ''    \<newline>'' @
     u ''    Example for "Tomatoes":\<newline>'' @
     u ''    <ul>\<newline>'' @
     u ''        <li>'' @ [0x1F4A7] @ u '' **Water Management:** Ensure consistent watering to prevent blossom-end rot. Drip irrigation is highly effective.</li>\<newline>'' @
     u ''        <li>'' @ [0x1F41B] @ u '' **Pest Control:** Regularly inspect for hornworms and use neem oil as a natural pesticide.</li>\<newline>'' @
     u ''        <li>'' @ [0x1F331] @ u '' **Soil Health:** Maintain a soil pH between 6.2 and 6.8 and enrich with compost before planting.</li>\<newline>'' @
     u ''    </ul>\<newline>'' @
     u ''\<newline>'' @
     u ''    Generate the tips for '' @ crop_name @ u '' now.\<newline>'' @
     u ''    ''\<close>

text \<open>
  \<open>response.text.replace("```html", "").replace("```", "").strip()\<close>
\<close>

definition cleaned_tips :: "pystr \<Rightarrow> pystr" where
  "cleaned_tips t = strip (replace (replace t (u ''```html'') []) (u ''```'') [])"

text \<open>
  What one request does: the response, or the exception that leaves the handler
  (\<open>result\<close>), the prompts given to \<open>model.generate_content\<close> (\<open>calls\<close>) and the lines
  printed (\<open>logged\<close>).
\<close>

record outcome =
  result :: "py_exception + http_response"
  calls :: "pystr list"
  logged :: "pystr list"

definition upstream_failure :: "pystr \<Rightarrow> py_exception \<Rightarrow> outcome" where
  "upstream_failure p e =
     \<lparr>result = Inr (jsonify [(u ''error'', JStr (u ''Failed to get tips from Gemini API''))] 500),
      calls = [p],
      logged = [u ''Error calling Gemini API: '' @ exc_text e]\<rparr>"

text \<open>
  \<open>get_json\<close> is what \<open>request.get_json()\<close> does for the request: it raises, or returns the
  parsed body.
\<close>

definition get_farming_tips ::
  "(json \<Rightarrow> pystr) \<Rightarrow> client option \<Rightarrow> py_exception + json \<Rightarrow> outcome" where
  "get_farming_tips py_str model get_json =
     (case model of
        None \<Rightarrow>
          \<lparr>result = Inr (jsonify [(u ''error'', JStr (u ''Gemini API not configured''))] 500),
           calls = [], logged = []\<rparr>
      | Some m \<Rightarrow>
          (case get_json of
             Inl e \<Rightarrow> \<lparr>result = Inl e, calls = [], logged = []\<rparr>
           | Inr data \<Rightarrow>
               (case py_get data (u ''cropName'') of
                  Inl e \<Rightarrow> \<lparr>result = Inl e, calls = [], logged = []\<rparr>
                | Inr crop_name \<Rightarrow>
                    if \<not> truthy crop_name then
                      \<lparr>result = Inr (jsonify [(u ''error'', JStr (u ''Crop name is required''))] 400),
                       calls = [], logged = []\<rparr>
                    else
                      let p = prompt (format_field py_str crop_name) in
                      (case m p of
                         Inl e \<Rightarrow> upstream_failure p e
                       | Inr response \<Rightarrow>
                           (case response_text response of
                              Inl e \<Rightarrow> upstream_failure p e
                            | Inr t \<Rightarrow>
                                \<lparr>result = Inr (jsonify [(u ''tips'', JStr (cleaned_tips t))] 200),
                                 calls = [p], logged = []\<rparr>)))))"

section \<open>Notions used in the properties\<close>

text \<open>The number of leading occurrences of \<open>b\<close> in \<open>s\<close>.\<close>

definition lead :: "'a \<Rightarrow> 'a list \<Rightarrow> nat" where
  "lead b s = length (takeWhile (\<lambda>c. c = b) s)"

text \<open>A text has no leading and no trailing whitespace.\<close>

definition trimmed :: "pystr \<Rightarrow> bool" where
  "trimmed s \<longleftrightarrow> s = [] \<or> (\<not> isspace (hd s) \<and> \<not> isspace (last s))"

text \<open>
  Fixtures for concrete runs: an interpreter \<open>str()\<close> for runs that format no value other
  than a \<open>str\<close>, a client whose call raises, one whose response has no readable text,
  one that answers with a fenced list, one that answers with the list alone and one whose
  answer has fences inside the text.
\<close>

definition str_unused :: "json \<Rightarrow> pystr" where
  "str_unused v = []"

definition client_down :: client where
  "client_down p = Inl (Raised (u ''ConnectionError'') (u ''network unreachable''))"

definition client_blocked :: client where
  "client_blocked p =
     Inr (GenResponse (Inl (Raised (u ''ValueError'') (u ''response has no valid part''))))"

definition client_fenced :: client where
  "client_fenced p =
     Inr (GenResponse (Inr (u ''```html\<newline><ul><li>Water early.</li></ul>\<newline>```'')))"

definition client_plain :: client where
  "client_plain p = Inr (GenResponse (Inr (u ''<ul><li>Water early.</li></ul>'')))"

definition client_interior :: client where
  "client_interior p =
     Inr (GenResponse (Inr (u ''<li>Sow ```html early``` and ```html late</li>'')))"

text \<open>
  A text in which every backtick belongs to a fence is a text \<open>x\<close> without backtick
  followed by pieces, each a fence, \<open>```html\<close> or \<open>```\<close>, and a text without backtick;
  the text after \<open>```\<close> does not start with \<open>html\<close>, which would make the fence a
  \<open>```html\<close>. \<open>fenced ps\<close> is the text of the pieces, \<open>plain_left ps\<close> what is left of it
  when the fences \<open>```html\<close> are deleted, and \<open>concat (map snd ps)\<close> what is left when all
  fences are.
\<close>

datatype fence = FenceHtml | FencePlain

fun marker :: "fence \<Rightarrow> pystr" where
  "marker FenceHtml = u ''```html''"
| "marker FencePlain = u ''```''"

fun fenced :: "(fence \<times> pystr) list \<Rightarrow> pystr" where
  "fenced [] = []"
| "fenced ((k, y) # ps) = marker k @ y @ fenced ps"

fun pieces_ok :: "(fence \<times> pystr) list \<Rightarrow> bool" where
  "pieces_ok [] = True"
| "pieces_ok ((k, y) # ps) =
     (96 \<notin> set y \<and> (k = FencePlain \<longrightarrow> \<not> prefix (u ''html'') y) \<and> pieces_ok ps)"

fun plain_left :: "(fence \<times> pystr) list \<Rightarrow> pystr" where
  "plain_left [] = []"
| "plain_left ((FenceHtml, y) # ps) = y @ plain_left ps"
| "plain_left ((FencePlain, y) # ps) = u ''```'' @ y @ plain_left ps"



section \<open>Facts about replace and strip\<close>

lemma fence_eq: "u ''```'' = [96, 96, 96]"
  by (simp add: u_def)

lemma fence_html_eq: "u ''```html'' = [96, 96, 96, 104, 116, 109, 108]"
  by (simp add: u_def)

lemma replace_from_absent:
  "\<not> sublist old s \<Longrightarrow> replace_from old new s = s"
proof (induction s)
  case Nil
  show ?case by simp
next
  case (Cons c cs)
  from Cons.prems have np: "\<not> prefix old (c # cs)" and ns: "\<not> sublist old cs"
    by (auto simp: sublist_Cons_right)
  from Cons.IH [OF ns] np show ?case by simp
qed

lemma replace_absent:
  "old \<noteq> [] \<Longrightarrow> \<not> sublist old s \<Longrightarrow> replace s old new = s"
  by (simp add: replace_def replace_from_absent)

lemma prefix3_lead: "prefix [b, b, b] s \<Longrightarrow> 3 \<le> lead b s"
  by (auto simp: prefix_def lead_def)

lemma lead_ge3_prefix: "3 \<le> lead b s \<Longrightarrow> prefix [b, b, b] s"
proof -
  assume h: "3 \<le> lead b s"
  obtain x y z r where s: "s = x # y # z # r"
    using h by (cases s; cases "tl s"; cases "tl (tl s)") (auto simp: lead_def split: if_splits)
  with h show ?thesis by (auto simp: lead_def split: if_splits)
qed

lemma lead_replace_from_gen:
  "old = [b, b, b] \<Longrightarrow> new = [] \<Longrightarrow> lead b (replace_from old new s) = lead b s mod 3"
proof (induction old new s rule: replace_from.induct)
  case (1 old new)
  show ?case by (simp add: lead_def)
next
  case (2 old new c cs)
  note old = \<open>old = [b, b, b]\<close> and new = \<open>new = []\<close>
  show ?case
  proof (cases "prefix old (c # cs)")
    case True
    then obtain r where r: "c # cs = [b, b, b] @ r" using old by (auto simp: prefix_def)
    have d: "drop (length old) (c # cs) = r" unfolding old r by simp
    have ne: "old \<noteq> []" unfolding old by simp
    have c: "old \<noteq> [] \<and> prefix old (c # cs)" using True ne by blast
    have "lead b (replace_from old new (drop (length old) (c # cs)))
            = lead b (drop (length old) (c # cs)) mod 3"
      using "2.IH"(1) c old new by blast
    then have ih: "lead b (replace_from old new r) = lead b r mod 3" unfolding d .
    have l: "lead b (c # cs) = 3 + lead b r" unfolding r by (simp add: lead_def)
    have "replace_from old new (c # cs) = new @ replace_from old new (drop (length old) (c # cs))"
      using c by simp
    then have e: "replace_from old new (c # cs) = replace_from old new r"
      unfolding d new by simp
    show ?thesis unfolding e ih l by simp
  next
    case False
    then have "\<not> prefix [b, b, b] (c # cs)" unfolding old .
    then have "\<not> 3 \<le> lead b (c # cs)" using lead_ge3_prefix [of b "c # cs"] by blast
    then have lt: "lead b (c # cs) < 3" by simp
    have c: "\<not> (old \<noteq> [] \<and> prefix old (c # cs))" using False by blast
    have ih: "lead b (replace_from old new cs) = lead b cs mod 3"
      using "2.IH"(2) c old new by blast
    have e: "replace_from old new (c # cs) = c # replace_from old new cs"
      by (simp only: replace_from.simps c if_False)
    show ?thesis
    proof (cases "c = b")
      case True
      then have s: "lead b (c # cs) = Suc (lead b cs)" by (simp add: lead_def)
      with lt have "lead b cs < 3" by simp
      with ih have "lead b (replace_from old new cs) = lead b cs" by simp
      then have "lead b (c # replace_from old new cs) = Suc (lead b cs)"
        using True by (simp add: lead_def)
      with s lt show ?thesis unfolding e by simp
    next
      case False
      then show ?thesis unfolding e by (simp add: lead_def)
    qed
  qed
qed

lemma replace_from_no_triple_gen:
  "old = [b, b, b] \<Longrightarrow> new = [] \<Longrightarrow> \<not> sublist old (replace_from old new s)"
proof (induction old new s rule: replace_from.induct)
  case (1 old new)
  then show ?case by simp
next
  case (2 old new c cs)
  note old = \<open>old = [b, b, b]\<close> and new = \<open>new = []\<close>
  show ?case
  proof (cases "prefix old (c # cs)")
    case True
    have ne: "old \<noteq> []" unfolding old by simp
    have c: "old \<noteq> [] \<and> prefix old (c # cs)" using True ne by blast
    have ih: "\<not> sublist old (replace_from old new (drop (length old) (c # cs)))"
      using "2.IH"(1) c old new by blast
    have "replace_from old new (c # cs) = new @ replace_from old new (drop (length old) (c # cs))"
      using c by simp
    with ih new show ?thesis by simp
  next
    case False
    have c: "\<not> (old \<noteq> [] \<and> prefix old (c # cs))" using False by blast
    have ih: "\<not> sublist old (replace_from old new cs)"
      using "2.IH"(2) c old new by blast
    have e: "replace_from old new (c # cs) = c # replace_from old new cs"
      by (simp only: replace_from.simps c if_False)
    have "lead b (replace_from old new (c # cs)) < 3"
      unfolding lead_replace_from_gen [OF old new] by simp
    then have "\<not> 3 \<le> lead b (replace_from old new (c # cs))" by simp
    then have "\<not> prefix [b, b, b] (replace_from old new (c # cs))"
      using prefix3_lead [of b "replace_from old new (c # cs)"] by blast
    then have "\<not> prefix old (replace_from old new (c # cs))" unfolding old .
    then have "\<not> prefix old (c # replace_from old new cs)" unfolding e .
    with ih show ?thesis unfolding e by (simp only: sublist_Cons_right) simp
  qed
qed

lemma sublist_trans: "sublist a b \<Longrightarrow> sublist b c \<Longrightarrow> sublist a c"
proof -
  assume "sublist a b" and "sublist b c"
  then obtain p q p' q' where "b = p @ a @ q" and "c = p' @ b @ q'"
    unfolding sublist_def by blast
  then have "c = (p' @ p) @ a @ (q @ q')" by simp
  then show ?thesis unfolding sublist_def by blast
qed

lemma replace_no_fence: "\<not> sublist (u ''```'') (replace s (u ''```'') [])"
  by (simp add: replace_def fence_eq replace_from_no_triple_gen)

lemma sublist_strip: "sublist (strip s) s"
proof -
  have "sublist (rev (dropWhile isspace (rev (dropWhile isspace s)))) (dropWhile isspace s)"
    by (simp add: sublist_rev_left)
  moreover have "sublist (dropWhile isspace s) s" by simp
  ultimately show ?thesis unfolding strip_def by (rule sublist_trans)
qed

lemma strip_no_new: "\<not> sublist p s \<Longrightarrow> \<not> sublist p (strip s)"
  using sublist_strip sublist_trans by blast

lemma strip_trimmed_id: "trimmed s \<Longrightarrow> strip s = s"
proof -
  assume t: "trimmed s"
  show ?thesis
  proof (cases "s = []")
    case True then show ?thesis by (simp add: strip_def)
  next
    case False
    with t have h: "\<not> isspace (hd s)" and l: "\<not> isspace (last s)" by (auto simp: trimmed_def)
    from False h have 1: "dropWhile isspace s = s" by (cases s) auto
    from False l have 2: "dropWhile isspace (rev s) = rev s"
      by (simp add: dropWhile_eq_self_iff hd_rev)
    show ?thesis by (simp add: strip_def 1 2)
  qed
qed

lemma trimmed_strip: "trimmed (strip s)"
proof -
  let ?t = "dropWhile isspace s"
  let ?w = "dropWhile isspace (rev ?t)"
  show ?thesis
  proof (cases "?w = []")
    case True then show ?thesis by (simp add: trimmed_def strip_def)
  next
    case False
    then have hw: "\<not> isspace (hd ?w)" by (rule hd_dropWhile)
    have tne: "?t \<noteq> []"
    proof
      assume "?t = []"
      then have "?w = []" by (simp only: rev.simps dropWhile.simps)
      with False show False by blast
    qed
    then have ht: "\<not> isspace (hd ?t)" by (rule hd_dropWhile)
    have "suffix ?w (rev ?t)" by (rule suffix_dropWhile)
    then have "prefix (rev ?w) ?t" by (simp add: suffix_to_prefix)
    then obtain r where "?t = rev ?w @ r" by (auto simp: prefix_def)
    then have "hd ?t = hd (rev ?w)" using False by (metis hd_append2 rev_is_Nil_conv)
    with ht have "\<not> isspace (hd (rev ?w))" by simp
    moreover have "last (rev ?w) = hd ?w" using False by (simp add: last_rev)
    ultimately show ?thesis using hw False by (simp add: trimmed_def strip_def)
  qed
qed

lemma cleaned_no_fence: "\<not> sublist (u ''```'') (cleaned_tips t)"
  unfolding cleaned_tips_def by (rule strip_no_new) (rule replace_no_fence)

lemma fence_in_fence_html: "sublist (u ''```'') (u ''```html'')"
  by (simp add: fence_eq fence_html_eq sublist_Cons_right)

lemma no_fence_no_html: "\<not> sublist (u ''```'') s \<Longrightarrow> \<not> sublist (u ''```html'') s"
  using fence_in_fence_html sublist_trans by blast

lemma cleaned_clean_id:
  "\<not> sublist (u ''```'') s \<Longrightarrow> trimmed s \<Longrightarrow> cleaned_tips s = s"
proof -
  assume nf: "\<not> sublist (u ''```'') s" and t: "trimmed s"
  have 1: "replace s (u ''```html'') [] = s"
    using no_fence_no_html [OF nf] by (simp add: replace_absent fence_html_eq)
  have 2: "replace s (u ''```'') [] = s"
    using nf by (simp add: replace_absent fence_eq)
  show ?thesis by (simp add: cleaned_tips_def 1 2 strip_trimmed_id [OF t])
qed

lemma cleaned_idem: "cleaned_tips (cleaned_tips x) = cleaned_tips x"
  by (rule cleaned_clean_id) (simp_all add: cleaned_no_fence, simp add: cleaned_tips_def trimmed_strip)

lemma replace_from_skip:
  "old \<noteq> [] \<Longrightarrow> hd old \<notin> set a \<Longrightarrow> replace_from old new (a @ s) = a @ replace_from old new s"
proof (induction a)
  case Nil
  show ?case by simp
next
  case (Cons c a)
  from Cons.prems have ne: "hd old \<noteq> c" and rest: "hd old \<notin> set a" by auto
  have "\<not> prefix old (c # a @ s)"
  proof
    assume "prefix old (c # a @ s)"
    with \<open>old \<noteq> []\<close> have "hd old = c" by (cases old) auto
    with ne show False by simp
  qed
  then have "replace_from old new ((c # a) @ s) = c # replace_from old new (a @ s)" by simp
  with Cons.IH [OF \<open>old \<noteq> []\<close> rest] show ?case by simp
qed

lemma replace_from_hit:
  "old \<noteq> [] \<Longrightarrow> replace_from old new (old @ s) = new @ replace_from old new s"
proof -
  assume ne: "old \<noteq> []"
  then obtain c cs where e: "old @ s = c # cs" by (cases old) auto
  have p: "old \<noteq> [] \<and> prefix old (c # cs)" using ne e [symmetric] by simp
  have d: "drop (length old) (c # cs) = s" using e [symmetric] by simp
  have "replace_from old new (c # cs) = new @ replace_from old new (drop (length old) (c # cs))"
    using p by simp
  then have "replace_from old new (c # cs) = new @ replace_from old new s" unfolding d .
  then show ?thesis unfolding e .
qed

lemma no_backtick_no_fence: "96 \<notin> set s \<Longrightarrow> \<not> sublist (u ''```'') s"
proof
  assume "96 \<notin> set s" and "sublist (u ''```'') s"
  then have "set (u ''```'') \<subseteq> set s" by (simp add: set_mono_sublist)
  with \<open>96 \<notin> set s\<close> show False by (simp add: fence_eq)
qed

lemma fenced_head: "fenced ps = [] \<or> prefix [96, 96, 96] (fenced ps)"
proof (cases ps)
  case Nil
  then show ?thesis by simp
next
  case (Cons p ps')
  obtain k y where "p = (k, y)" by (cases p)
  with Cons show ?thesis by (cases k) (simp_all add: fence_eq fence_html_eq)
qed

lemma html_eq: "u ''html'' = [104, 116, 109, 108]"
  by (simp add: u_def)

lemma no_html_prefix:
  assumes h: "\<not> prefix (u ''html'') y" and w: "w = [] \<or> prefix [96, 96, 96] w"
  shows "\<not> prefix (u ''html'') (y @ w)"
proof
  assume "prefix (u ''html'') (y @ w)"
  then have "prefix (u ''html'') y \<or> (\<exists>us. u ''html'' = y @ us \<and> prefix us w)"
    by (simp add: prefix_append)
  with h obtain us where e: "u ''html'' = y @ us" and p: "prefix us w" by blast
  from e h have ne: "us \<noteq> []" by auto
  from e have s: "set us \<subseteq> {104, 116, 109, 108}"
    using set_append [of y us] unfolding e [symmetric] html_eq by auto
  from ne p have wne: "w \<noteq> []" by auto
  with w have "prefix [96, 96, 96] w" by simp
  then obtain w' where "w = 96 # w'" by (auto simp: prefix_def)
  with p ne have "hd us = 96" by (cases us) auto
  with ne have "96 \<in> set us" by (cases us) auto
  with s show False by auto
qed

lemma plain_step:
  assumes h: "\<not> prefix [104, 116, 109, 108] z"
    and z: "z = [] \<or> hd z \<noteq> 96 \<or> prefix [96, 96, 96] z"
  shows "replace_from [96, 96, 96, 104, 116, 109, 108] [] (96 # 96 # 96 # z)
           = 96 # 96 # 96 # replace_from [96, 96, 96, 104, 116, 109, 108] [] (z :: nat list)"
proof -
  have 1: "\<not> prefix [96, 96, 96, 104, 116, 109, 108] (96 # 96 # 96 # z)" using h by simp
  have 2: "\<not> prefix [96, 96, 96, 104, 116, 109, 108] (96 # 96 # z)"
    using z by (cases z) (auto simp: prefix_def)
  have 3: "\<not> prefix [96, 96, 96, 104, 116, 109, 108] (96 # z)"
    using z by (cases z) (auto simp: prefix_def)
  show ?thesis by (simp only: replace_from.simps 1 2 3 simp_thms if_False)
qed

lemma first_pass:
  "96 \<notin> set x \<Longrightarrow> pieces_ok ps \<Longrightarrow>
   replace_from (u ''```html'') [] (x @ fenced ps) = x @ plain_left ps"
proof (induction ps arbitrary: x)
  case Nil
  have "\<not> sublist (u ''```html'') x"
    using no_backtick_no_fence [OF Nil(1)] by (rule no_fence_no_html)
  then show ?case by (simp add: replace_from_absent)
next
  case (Cons p ps)
  obtain k y where p: "p = (k, y)" by (cases p)
  from Cons.prems p have y: "96 \<notin> set y" and ok: "pieces_ok ps" by simp_all
  have skip: "replace_from (u ''```html'') [] (x @ s) = x @ replace_from (u ''```html'') [] s"
    for s
    using Cons.prems(1) by (intro replace_from_skip) (simp_all add: fence_html_eq)
  show ?case
  proof (cases k)
    case FenceHtml
    have "replace_from (u ''```html'') [] (u ''```html'' @ y @ fenced ps)
            = replace_from (u ''```html'') [] (y @ fenced ps)"
      by (subst replace_from_hit) (simp_all add: fence_html_eq)
    also have "\<dots> = y @ plain_left ps" using y ok by (rule Cons.IH)
    finally show ?thesis using p FenceHtml skip by simp
  next
    case FencePlain
    with Cons.prems p have h: "\<not> prefix (u ''html'') y" by simp
    have h': "\<not> prefix [104, 116, 109, 108] (y @ fenced ps)"
      using no_html_prefix [OF h fenced_head] by (simp add: html_eq)
    have z: "y @ fenced ps = [] \<or> hd (y @ fenced ps) \<noteq> 96
               \<or> prefix [96, 96, 96] (y @ fenced ps)"
    proof (cases y)
      case Nil
      then show ?thesis using fenced_head [of ps] by auto
    next
      case (Cons c cs)
      with y show ?thesis by auto
    qed
    have "replace_from (u ''```html'') [] (u ''```'' @ y @ fenced ps)
            = u ''```'' @ replace_from (u ''```html'') [] (y @ fenced ps)"
      using plain_step [OF h' z] by (simp add: fence_eq fence_html_eq)
    also have "\<dots> = u ''```'' @ y @ plain_left ps" using Cons.IH [OF y ok] by simp
    finally show ?thesis using p FencePlain skip by simp
  qed
qed

lemma second_pass:
  "96 \<notin> set x \<Longrightarrow> pieces_ok ps \<Longrightarrow>
   replace_from (u ''```'') [] (x @ plain_left ps) = x @ concat (map snd ps)"
proof (induction ps arbitrary: x)
  case Nil
  then show ?case using no_backtick_no_fence [of x] by (simp add: replace_from_absent)
next
  case (Cons p ps)
  obtain k y where p: "p = (k, y)" by (cases p)
  from Cons.prems p have y: "96 \<notin> set y" and ok: "pieces_ok ps" by simp_all
  show ?case
  proof (cases k)
    case FenceHtml
    have "96 \<notin> set (x @ y)" using Cons.prems(1) y by simp
    from Cons.IH [OF this ok] show ?thesis using p FenceHtml by simp
  next
    case FencePlain
    have "replace_from (u ''```'') [] (x @ u ''```'' @ y @ plain_left ps)
            = x @ replace_from (u ''```'') [] (u ''```'' @ y @ plain_left ps)"
      using Cons.prems(1) by (intro replace_from_skip) (simp_all add: fence_eq)
    also have "\<dots> = x @ replace_from (u ''```'') [] (y @ plain_left ps)"
      by (subst replace_from_hit) (simp_all add: fence_eq)
    also have "\<dots> = x @ y @ concat (map snd ps)" using Cons.IH [OF y ok] by simp
    finally show ?thesis using p FencePlain by simp
  qed
qed

lemma fenced_pieces:
  assumes "96 \<notin> set x" and "pieces_ok ps"
  shows "cleaned_tips (x @ fenced ps) = strip (x @ concat (map snd ps))"
  using first_pass [OF assms] second_pass [OF assms]
  by (simp add: cleaned_tips_def replace_def fence_eq fence_html_eq)

lemma fenced_cleaned:
  "cleaned_tips (u ''```html\<newline><ul><li>Water early.</li></ul>\<newline>```'')
     = u ''<ul><li>Water early.</li></ul>''"
  by (simp add: cleaned_tips_def replace_def strip_def isspace_def u_def)

section \<open>Facts about the prompt\<close>













section \<open>The handlers\<close>

lemma handler_valid:
  "map_of kvs (u ''cropName'') = Some (JStr s) \<Longrightarrow> s \<noteq> [] \<Longrightarrow>
   get_farming_tips py_str (Some m) (Inr (JObj kvs)) =
     (case m (prompt s) of
        Inl e \<Rightarrow> upstream_failure (prompt s) e
      | Inr response \<Rightarrow>
          (case response_text response of
             Inl e \<Rightarrow> upstream_failure (prompt s) e
           | Inr t \<Rightarrow>
               \<lparr>result = Inr (jsonify [(u ''tips'', JStr (cleaned_tips t))] 200),
                calls = [prompt s], logged = []\<rparr>))"
  by (simp add: get_farming_tips_def format_field_def Let_def)

text \<open>
  Claim C1, as the code has it. The handler first tests the global \<open>model\<close> and only then
  reads the body. For a body that is a JSON object without the key \<open>cropName\<close> it answers
  400 with \<open>{"error": "Crop name is required"}\<close> when the client was initialised, and 500
  with \<open>{"error": "Gemini API not configured"}\<close> when it was not; in both cases the external
  service is not called.
\<close>

theorem missing_crop_name:
  "map_of kvs (u ''cropName'') = None \<Longrightarrow>
   get_farming_tips py_str model (Inr (JObj kvs)) =
     (case model of
        None \<Rightarrow>
          \<lparr>result = Inr (jsonify [(u ''error'', JStr (u ''Gemini API not configured''))] 500),
           calls = [], logged = []\<rparr>
      | Some m \<Rightarrow>
          \<lparr>result = Inr (jsonify [(u ''error'', JStr (u ''Crop name is required''))] 400),
           calls = [], logged = []\<rparr>)"
  by (simp add: get_farming_tips_def split: option.split)

theorem missing_crop_name_witness:
  "result (get_farming_tips str_unused (Some client_plain) (Inr (JObj []))) =
     Inr (jsonify [(u ''error'', JStr (u ''Crop name is required''))] 400)
   \<and> result (get_farming_tips str_unused None (Inr (JObj []))) =
     Inr (jsonify [(u ''error'', JStr (u ''Gemini API not configured''))] 500)"
  using missing_crop_name [of "[]" str_unused "Some client_plain"]
        missing_crop_name [of "[]" str_unused None]
  by simp

text \<open>
  The claim C1 as stated fails: with the body \<open>{}\<close> and a client that failed to
  initialise, the answer is not the 400 response.
\<close>

theorem validation_first_counterexample:
  "result (get_farming_tips str_unused None (Inr (JObj []))) \<noteq>
     Inr (jsonify [(u ''error'', JStr (u ''Crop name is required''))] 400)"
  by (simp add: get_farming_tips_def jsonify_def)

text \<open>
  Claim C2. When the client failed to initialise, every request, and so every request with a
  valid \<open>cropName\<close>, is answered 500 with \<open>{"error": "Gemini API not configured"}\<close>, and
  no prompt is given to the external service.
\<close>

theorem not_configured:
  "get_farming_tips py_str None get_json =
     \<lparr>result = Inr (jsonify [(u ''error'', JStr (u ''Gemini API not configured''))] 500),
      calls = [], logged = []\<rparr>"
  by (simp add: get_farming_tips_def)

text \<open>
  Claim C3. With a valid \<open>cropName\<close> (a non-empty string) and an initialised client, when
  the call raises, or reading the text of its response raises, the answer is 500 with exactly
  \<open>{"error": "Failed to get tips from Gemini API"}\<close>: the body is the same for every
  exception and holds nothing of it.
\<close>

theorem upstream_failure_uniform:
  assumes "map_of kvs (u ''cropName'') = Some (JStr s)" and "s \<noteq> []"
    and "m (prompt s) = Inl e \<or> m (prompt s) = Inr (GenResponse (Inl e))"
  shows "result (get_farming_tips py_str (Some m) (Inr (JObj kvs))) =
           Inr (jsonify [(u ''error'', JStr (u ''Failed to get tips from Gemini API''))] 500)"
  using assms(3) unfolding handler_valid [OF assms(1,2)]
  by (auto simp: upstream_failure_def)

theorem upstream_failure_uniform_witness:
  "result (get_farming_tips str_unused (Some client_down)
             (Inr (JObj [(u ''cropName'', JStr (u ''Tomatoes''))]))) =
     Inr (jsonify [(u ''error'', JStr (u ''Failed to get tips from Gemini API''))] 500)
   \<and> result (get_farming_tips str_unused (Some client_blocked)
             (Inr (JObj [(u ''cropName'', JStr (u ''Tomatoes''))]))) =
     Inr (jsonify [(u ''error'', JStr (u ''Failed to get tips from Gemini API''))] 500)"
  using upstream_failure_uniform [of "[(u ''cropName'', JStr (u ''Tomatoes''))]" "u ''Tomatoes''"
          client_down "Raised (u ''ConnectionError'') (u ''network unreachable'')" str_unused]
        upstream_failure_uniform [of "[(u ''cropName'', JStr (u ''Tomatoes''))]" "u ''Tomatoes''"
          client_blocked "Raised (u ''ValueError'') (u ''response has no valid part'')" str_unused]
  by (simp add: client_down_def client_blocked_def u_def)

text \<open>
  Claim C9, as the code has it. The test on \<open>crop_name\<close> is its truth value, and it comes
  after the test on the global \<open>model\<close>. A request whose \<open>cropName\<close> is present with a falsy
  value is handled exactly as one without the key, whatever the state of the client: it is
  answered 400 with \<open>{"error": "Crop name is required"}\<close> when the client was initialised
  and 500 with \<open>{"error": "Gemini API not configured"}\<close> when it was not, and the external
  service is not called.
\<close>

theorem falsy_crop_name_rejected:
  assumes "map_of kvs (u ''cropName'') = Some v" and "\<not> truthy v"
    and "map_of kvs' (u ''cropName'') = None"
  shows "result (get_farming_tips py_str (Some m) (Inr (JObj kvs))) =
           Inr (jsonify [(u ''error'', JStr (u ''Crop name is required''))] 400)
         \<and> result (get_farming_tips py_str None (Inr (JObj kvs))) =
           Inr (jsonify [(u ''error'', JStr (u ''Gemini API not configured''))] 500)
         \<and> get_farming_tips py_str model (Inr (JObj kvs)) =
           get_farming_tips py_str model (Inr (JObj kvs'))
         \<and> calls (get_farming_tips py_str model (Inr (JObj kvs))) = []"
  using assms by (simp add: get_farming_tips_def split: option.split)

theorem falsy_crop_name_rejected_witness:
  "result (get_farming_tips str_unused (Some client_plain)
             (Inr (JObj [(u ''cropName'', JStr [])]))) =
     Inr (jsonify [(u ''error'', JStr (u ''Crop name is required''))] 400)
   \<and> result (get_farming_tips str_unused (Some client_plain)
             (Inr (JObj [(u ''cropName'', JNull)]))) =
     Inr (jsonify [(u ''error'', JStr (u ''Crop name is required''))] 400)
   \<and> result (get_farming_tips str_unused (Some client_plain)
             (Inr (JObj [(u ''cropName'', JBool False)]))) =
     Inr (jsonify [(u ''error'', JStr (u ''Crop name is required''))] 400)
   \<and> result (get_farming_tips str_unused (Some client_plain)
             (Inr (JObj [(u ''cropName'', JInt 0)]))) =
     Inr (jsonify [(u ''error'', JStr (u ''Crop name is required''))] 400)
   \<and> result (get_farming_tips str_unused None (Inr (JObj [(u ''cropName'', JInt 0)]))) =
     Inr (jsonify [(u ''error'', JStr (u ''Gemini API not configured''))] 500)
   \<and> get_farming_tips str_unused (Some client_plain) (Inr (JObj [(u ''cropName'', JNull)])) =
     get_farming_tips str_unused (Some client_plain) (Inr (JObj []))
   \<and> get_farming_tips str_unused None (Inr (JObj [(u ''cropName'', JNull)])) =
     get_farming_tips str_unused None (Inr (JObj []))"
proof -
  have n: "map_of [] (u ''cropName'') = (None :: json option)" by simp
  have h: "map_of [(u ''cropName'', v)] (u ''cropName'') = Some v" for v :: json by simp
  note r = falsy_crop_name_rejected [OF h _ n, of _ str_unused client_plain]
  have 1: "\<not> truthy (JStr [])" and 2: "\<not> truthy JNull"
    and 3: "\<not> truthy (JBool False)" and 4: "\<not> truthy (JInt 0)" by simp_all
  from r [OF 1] r [OF 2, of "Some client_plain"] r [OF 2, of None] r [OF 3] r [OF 4]
  show ?thesis by blast
qed

text \<open>
  The claim C9 as stated fails: with the body \<open>{"cropName": ""}\<close> and a client that failed
  to initialise, the answer is not the 400 response.
\<close>

theorem falsy_crop_name_counterexample:
  "result (get_farming_tips str_unused None (Inr (JObj [(u ''cropName'', JStr [])]))) \<noteq>
     Inr (jsonify [(u ''error'', JStr (u ''Crop name is required''))] 400)"
  by (simp add: get_farming_tips_def jsonify_def)

text \<open>
  Claim C6. Whatever the request and the state of the generator, the crop simulator answers
  200 with one of the five crops of \<open>possible_crops\<close> and an integer confidence from 85
  to 98.
\<close>

theorem analyze_crop_range:
  "\<exists>c n g'. analyze_crop req g =
       (Inr (jsonify [(u ''crop'', JStr c), (u ''confidence'', JInt n)] 200), g')
     \<and> c \<in> {u ''Wheat'', u ''Rice'', u ''Sugarcane'', u ''Cotton'', u ''Mustard''}
     \<and> 85 \<le> n \<and> n \<le> 98"
proof -
  let ?k = "shd g mod 5"
  let ?j = "shd (stl g) mod 14"
  have len: "length possible_crops = 5" by (simp add: possible_crops_def)
  have c: "choice possible_crops g = Inr (possible_crops ! ?k, stl g)"
    by (simp add: choice_def randbelow_def len) (simp add: possible_crops_def)
  have r: "randint 85 98 (stl g) = Inr (85 + int ?j, stl (stl g))"
    by (simp add: randint_def randbelow_def)
  have a: "analyze_crop req g =
      (Inr (jsonify [(u ''crop'', JStr (possible_crops ! ?k)),
                     (u ''confidence'', JInt (85 + int ?j))] 200), stl (stl g))"
    by (simp add: analyze_crop_def c r)
  have "?k < length possible_crops" unfolding len by simp
  then have "possible_crops ! ?k \<in> set possible_crops" by (rule nth_mem)
  then have m: "possible_crops ! ?k \<in>
      {u ''Wheat'', u ''Rice'', u ''Sugarcane'', u ''Cotton'', u ''Mustard''}"
    unfolding possible_crops_def by simp
  have "?j < 14" by simp
  then have b: "85 \<le> 85 + int ?j \<and> 85 + int ?j \<le> 98" by linarith
  from a m b show ?thesis by blast
qed

section \<open>Sanitisation and the prompt\<close>

text \<open>
  Claim C4. Sanitisation is idempotent: for every text \<open>x\<close>, cleaning the cleaned text gives
  the cleaned text, where cleaning removes every occurrence of \<open>```html\<close>, then every
  occurrence of \<open>```\<close>, then strips leading and trailing whitespace.
\<close>

theorem cleaned_tips_idempotent: "cleaned_tips (cleaned_tips x) = cleaned_tips x"
  by (rule cleaned_idem)

text \<open>
  Claim C5. With a valid \<open>cropName\<close> and an initialised client whose response has the text
  \<open>raw\<close>, whatever \<open>raw\<close> is, the answer is 200 with the cleaned text as \<open>tips\<close>, and that
  text holds no \<open>```\<close>, hence no \<open>```html\<close> either, and has no leading and no trailing
  whitespace.
\<close>

theorem tips_without_fences:
  assumes "map_of kvs (u ''cropName'') = Some (JStr s)" and "s \<noteq> []"
    and "m (prompt s) = Inr (GenResponse (Inr raw))"
  shows "result (get_farming_tips py_str (Some m) (Inr (JObj kvs))) =
           Inr (jsonify [(u ''tips'', JStr (cleaned_tips raw))] 200)
         \<and> \<not> sublist (u ''```'') (cleaned_tips raw)
         \<and> \<not> sublist (u ''```html'') (cleaned_tips raw)
         \<and> trimmed (cleaned_tips raw)"
proof -
  have "result (get_farming_tips py_str (Some m) (Inr (JObj kvs))) =
           Inr (jsonify [(u ''tips'', JStr (cleaned_tips raw))] 200)"
    unfolding handler_valid [OF assms(1,2)] by (simp add: assms(3))
  moreover have "trimmed (cleaned_tips raw)" by (simp add: cleaned_tips_def trimmed_strip)
  ultimately show ?thesis
    using cleaned_no_fence [of raw] no_fence_no_html [of "cleaned_tips raw"] by blast
qed

theorem tips_without_fences_witness:
  "result (get_farming_tips str_unused (Some client_fenced)
             (Inr (JObj [(u ''cropName'', JStr (u ''Tomatoes''))]))) =
     Inr (jsonify [(u ''tips'', JStr (u ''<ul><li>Water early.</li></ul>''))] 200)
   \<and> \<not> sublist (u ''```'') (u ''<ul><li>Water early.</li></ul>'')
   \<and> trimmed (u ''<ul><li>Water early.</li></ul>'')"
proof -
  have h: "map_of [(u ''cropName'', JStr (u ''Tomatoes''))] (u ''cropName'')
             = Some (JStr (u ''Tomatoes''))" by simp
  have n: "u ''Tomatoes'' \<noteq> []" by (simp add: u_def)
  have c: "client_fenced (prompt (u ''Tomatoes'')) =
             Inr (GenResponse (Inr (u ''```html\<newline><ul><li>Water early.</li></ul>\<newline>```'')))"
    by (simp add: client_fenced_def)
  from tips_without_fences [where m = client_fenced and py_str = str_unused, OF h n c] show ?thesis
    unfolding fenced_cleaned by blast
qed

text \<open>
  Claim C7. When the text of the response holds no \<open>```\<close> and has no leading or trailing
  whitespace, the answer is 200 and its \<open>tips\<close> is that text unchanged.
\<close>

theorem clean_text_verbatim:
  assumes "map_of kvs (u ''cropName'') = Some (JStr s)" and "s \<noteq> []"
    and "m (prompt s) = Inr (GenResponse (Inr raw))"
    and "\<not> sublist (u ''```'') raw" and "trimmed raw"
  shows "result (get_farming_tips py_str (Some m) (Inr (JObj kvs))) =
           Inr (jsonify [(u ''tips'', JStr raw)] 200)"
  unfolding handler_valid [OF assms(1,2)]
  by (simp add: assms(3) cleaned_clean_id [OF assms(4,5)])

theorem clean_text_verbatim_witness:
  "result (get_farming_tips str_unused (Some client_plain)
             (Inr (JObj [(u ''cropName'', JStr (u ''Tomatoes''))]))) =
     Inr (jsonify [(u ''tips'', JStr (u ''<ul><li>Water early.</li></ul>''))] 200)"
proof -
  have h: "map_of [(u ''cropName'', JStr (u ''Tomatoes''))] (u ''cropName'')
             = Some (JStr (u ''Tomatoes''))" by simp
  have n: "u ''Tomatoes'' \<noteq> []" by (simp add: u_def)
  have c: "client_plain (prompt (u ''Tomatoes'')) =
             Inr (GenResponse (Inr (u ''<ul><li>Water early.</li></ul>'')))"
    by (simp add: client_plain_def)
  have f: "\<not> sublist (u ''```'') (u ''<ul><li>Water early.</li></ul>'')"
    by (simp add: u_def sublist_Cons_right)
  have t: "trimmed (u ''<ul><li>Water early.</li></ul>'')"
    by (simp add: trimmed_def isspace_def u_def)
  from clean_text_verbatim [where m = client_plain and py_str = str_unused, OF h n c f t]
  show ?thesis .
qed

text \<open>
  Claim C10. Cleaning deletes every fence, wherever it stands. When the external service
  answers a text made of a text \<open>x\<close> without backtick and any number of pieces, each a fence
  \<open>```html\<close> or \<open>```\<close> followed by a text without backtick, the tips returned are the texts
  joined with all the fences deleted, stripped at the two ends only. And for every text \<open>t\<close>
  no \<open>```\<close> and no \<open>```html\<close> is left anywhere in the cleaned text.
\<close>

theorem fences_removed_everywhere:
  assumes "map_of kvs (u ''cropName'') = Some (JStr s)" and "s \<noteq> []"
    and "m (prompt s) = Inr (GenResponse (Inr (x @ fenced ps)))"
    and "96 \<notin> set x" and "pieces_ok ps"
  shows "result (get_farming_tips py_str (Some m) (Inr (JObj kvs))) =
           Inr (jsonify [(u ''tips'', JStr (strip (x @ concat (map snd ps))))] 200)
         \<and> cleaned_tips (x @ fenced ps) = strip (x @ concat (map snd ps))
         \<and> \<not> sublist (u ''```'') (cleaned_tips t)
         \<and> \<not> sublist (u ''```html'') (cleaned_tips t)"
proof -
  have c: "cleaned_tips (x @ fenced ps) = strip (x @ concat (map snd ps))"
    using assms(4,5) by (rule fenced_pieces)
  have "result (get_farming_tips py_str (Some m) (Inr (JObj kvs))) =
          Inr (jsonify [(u ''tips'', JStr (cleaned_tips (x @ fenced ps)))] 200)"
    unfolding handler_valid [OF assms(1,2)] by (simp add: assms(3))
  then show ?thesis
    using c cleaned_no_fence [of t] no_fence_no_html [of "cleaned_tips t"] by simp
qed

theorem fences_removed_everywhere_witness:
  "result (get_farming_tips str_unused (Some client_interior)
             (Inr (JObj [(u ''cropName'', JStr (u ''Tomatoes''))]))) =
     Inr (jsonify [(u ''tips'', JStr (u ''<li>Sow  early and  late</li>''))] 200)
   \<and> cleaned_tips (u ''<li>Sow ```html early``` and ```html late</li>'') =
       u ''<li>Sow  early and  late</li>''"
proof -
  let ?ps = "[(FenceHtml, u '' early''), (FencePlain, u '' and ''),
              (FenceHtml, u '' late</li>'')]"
  have h: "map_of [(u ''cropName'', JStr (u ''Tomatoes''))] (u ''cropName'')
             = Some (JStr (u ''Tomatoes''))" by simp
  have n: "u ''Tomatoes'' \<noteq> []" by (simp add: u_def)
  have e: "u ''<li>Sow '' @ fenced ?ps = u ''<li>Sow ```html early``` and ```html late</li>''"
    by (simp add: u_def)
  have c: "client_interior (prompt (u ''Tomatoes'')) =
             Inr (GenResponse (Inr (u ''<li>Sow '' @ fenced ?ps)))"
    unfolding e by (simp add: client_interior_def)
  have a: "96 \<notin> set (u ''<li>Sow '')" by (simp add: u_def)
  have ok: "pieces_ok ?ps" by (simp add: u_def)
  have st: "strip (u ''<li>Sow '' @ concat (map snd ?ps)) = u ''<li>Sow  early and  late</li>''"
    by (simp add: strip_def isspace_def u_def)
  from fences_removed_everywhere [where m = client_interior and py_str = str_unused,
         OF h n c a ok]
  show ?thesis unfolding e st by blast
qed





end
